theory Spec2Isabelle
  imports Main "HOL-Library.Sublist"
begin

section \<open>cxxheaderparser: parser state (\<^verbatim>\<open>cxxheaderparser/parserstate.py\<close>)\<close>

text \<open>
  A shallow embedding of \<^verbatim>\<open>parserstate.py\<close>: the modifier classification
  \<^verbatim>\<open>ParsedTypeModifiers\<close> with its \<^verbatim>\<open>validate\<close> method, and the scope states
  \<^verbatim>\<open>State\<close>, \<^verbatim>\<open>ExternBlockState\<close>, \<^verbatim>\<open>NamespaceBlockState\<close> and
  \<^verbatim>\<open>ClassBlockState\<close>. Python objects have identity and mutable attributes, so
  the scope states live in an explicit store; exceptions are values of a sum type.
\<close>

subsection \<open>Tokens, errors and the modifier classification\<close>

text \<open>
  Modelled from the spec: \<^verbatim>\<open>LexToken\<close> (module \<^verbatim>\<open>lexer\<close>) is a token object
  "carrying at minimum a literal spelling and a source location". The source reads
  only \<^verbatim>\<open>tok.value\<close>, the spelling. The type of locations is a parameter.
\<close>

record 'l LexToken =
  tok_value :: string
  tok_location :: 'l

text \<open>
  Modelled from the spec: \<^verbatim>\<open>CxxParseError\<close> (module \<^verbatim>\<open>errors\<close>) is "a single
  structured error carrying a human-readable message".
\<close>

datatype CxxParseError = CxxParseError (message: string)

text \<open>
  A Python \<^verbatim>\<open>Dict[str, LexToken]\<close> iterates in insertion order, so a mapping is an
  association list, oldest entry first. It is truthy exactly when it is not empty, and
  \<^verbatim>\<open>d.values()\<close> yields the tokens in that order.
\<close>

type_synonym 'l modifier_dict = "(string \<times> 'l LexToken) list"

record 'l ParsedTypeModifiers =
  vars :: "'l modifier_dict"
  both :: "'l modifier_dict"
  meths :: "'l modifier_dict"

definition dict_values :: "('k \<times> 'v) list \<Rightarrow> 'v list" where
  "dict_values d = map snd d"

text \<open>The f-string \<^verbatim>\<open>f"{msg}: unexpected '{tok.value}'"\<close>, wrapped in the error.\<close>

definition unexpected :: "string \<Rightarrow> 'l LexToken \<Rightarrow> CxxParseError" where
  "unexpected msg tok =
     CxxParseError (msg @ '': unexpected '' @ [CHR 0x27] @ tok_value tok @ [CHR 0x27])"

text \<open>
  The loop \<^verbatim>\<open>for tok in d.values(): raise CxxParseError(...)\<close>: it raises in its first
  iteration and falls through when there is nothing to iterate.
\<close>

fun for_raise :: "string \<Rightarrow> 'l LexToken list \<Rightarrow> CxxParseError + unit" where
  "for_raise msg [] = Inr ()"
| "for_raise msg (tok # toks) = Inl (unexpected msg tok)"

text \<open>
  \<^verbatim>\<open>ParsedTypeModifiers.validate(self, *, var_ok, meth_ok, msg)\<close>. The three checks run
  in the order of the source; the first exception ends the call. The classification is
  threaded through as the state the method could touch, so that what the call leaves
  behind is part of its result.
\<close>

definition validate ::
  "'l ParsedTypeModifiers \<Rightarrow> bool \<Rightarrow> bool \<Rightarrow> string
     \<Rightarrow> (CxxParseError + unit) \<times> 'l ParsedTypeModifiers" where
  "validate self var_ok meth_ok msg =
    (case (if \<not> var_ok \<and> vars self \<noteq> []
           then for_raise msg (dict_values (vars self)) else Inr ()) of
       Inl e \<Rightarrow> (Inl e, self)
     | Inr _ \<Rightarrow>
    (case (if \<not> meth_ok \<and> meths self \<noteq> []
           then for_raise msg (dict_values (meths self)) else Inr ()) of
       Inl e \<Rightarrow> (Inl e, self)
     | Inr _ \<Rightarrow>
    (case (if \<not> meth_ok \<and> \<not> var_ok \<and> both self \<noteq> []
           then for_raise msg (dict_values (both self)) else Inr ()) of
       Inl e \<Rightarrow> (Inl e, self)
     | Inr _ \<Rightarrow> (Inr (), self))))"

subsection \<open>Scope states\<close>

text \<open>
  A state object is identified by a reference; so is a visitor. The generic parameter
  \<^verbatim>\<open>T\<close> of the source is \<open>'u\<close>; the types \<^verbatim>\<open>Location\<close>, \<^verbatim>\<open>NamespaceDecl\<close> and
  \<^verbatim>\<open>ClassDecl\<close> come from modules outside this file and are the parameters \<open>'l\<close>,
  \<open>'n\<close> and \<open>'c\<close>. The attributes \<^verbatim>\<open>user_data\<close>, \<^verbatim>\<open>location\<close> and
  \<^verbatim>\<open>_prior_visitor\<close> are declared but not assigned by any method here: \<open>None\<close>
  is "not yet set".
\<close>

type_synonym ref = nat

type_synonym vref = nat

record ('u, 'l) State =
  parent :: "ref option"
  user_data :: "'u option"
  location :: "'l option"
  prior_visitor :: "vref option"

record ('u, 'l) ExternBlockState = "('u, 'l) State" +
  linkage :: string

record ('u, 'l, 'n) NamespaceBlockState = "('u, 'l) State" +
  namespace :: 'n

record ('u, 'l, 'c) ClassBlockState = "('u, 'l) State" +
  class_decl :: 'c
  access :: string
  typedef_mode :: bool
  mods :: "'l ParsedTypeModifiers"

text \<open>The run-time class of an object decides which \<^verbatim>\<open>_finish\<close> a call reaches.\<close>

datatype ('u, 'l, 'n, 'c) obj =
    OState "('u, 'l) State"
  | OExtern "('u, 'l) ExternBlockState"
  | ONamespace "('u, 'l, 'n) NamespaceBlockState"
  | OClass "('u, 'l, 'c) ClassBlockState"

definition parent_of :: "('u, 'l, 'n, 'c) obj \<Rightarrow> ref option" where
  "parent_of ob =
     (case ob of OState s \<Rightarrow> parent s | OExtern s \<Rightarrow> parent s
      | ONamespace s \<Rightarrow> parent s | OClass s \<Rightarrow> parent s)"

text \<open>
  Modelled from the spec: the event consumer \<^verbatim>\<open>CxxVisitor\<close> (module \<^verbatim>\<open>visitor\<close>)
  receives "one notification per closing scope variant", each passing the context. A
  notification is a call with the reference of the state passed; a visitor is
  represented by the calls it has received, oldest first.
\<close>

datatype call =
    on_extern_block_end ref
  | on_namespace_end ref
  | on_class_end ref

fun call_arg :: "call \<Rightarrow> ref" where
  "call_arg (on_extern_block_end s) = s"
| "call_arg (on_namespace_end s) = s"
| "call_arg (on_class_end s) = s"

record ('u, 'l, 'n, 'c) memory =
  heap :: "ref \<rightharpoonup> ('u, 'l, 'n, 'c) obj"
  received :: "vref \<Rightarrow> call list"

definition notify ::
  "vref \<Rightarrow> call \<Rightarrow> ('u, 'l, 'n, 'c, 'm) memory_scheme \<Rightarrow> ('u, 'l, 'n, 'c, 'm) memory_scheme" where
  "notify visitor c m = m\<lparr>received := (received m)(visitor := received m visitor @ [c])\<rparr>"

text \<open>\<^verbatim>\<open>__init__\<close> of each class: the subclasses call \<^verbatim>\<open>super().__init__(parent)\<close> first.\<close>

definition State_init :: "ref option \<Rightarrow> ('u, 'l) State" where
  "State_init p = \<lparr>parent = p, user_data = None, location = None, prior_visitor = None\<rparr>"

definition ExternBlockState_init :: "ref option \<Rightarrow> string \<Rightarrow> ('u, 'l) ExternBlockState" where
  "ExternBlockState_init p lk = State.extend (State_init p) (ExternBlockState.fields lk)"

definition NamespaceBlockState_init :: "ref option \<Rightarrow> 'n \<Rightarrow> ('u, 'l, 'n) NamespaceBlockState" where
  "NamespaceBlockState_init p ns = State.extend (State_init p) (NamespaceBlockState.fields ns)"

definition ClassBlockState_init ::
  "ref option \<Rightarrow> 'c \<Rightarrow> string \<Rightarrow> bool \<Rightarrow> 'l ParsedTypeModifiers \<Rightarrow> ('u, 'l, 'c) ClassBlockState" where
  "ClassBlockState_init p cd acc td ms =
     State.extend (State_init p) (ClassBlockState.fields cd acc td ms)"

text \<open>
  Calling a class allocates a new object, at a reference \<open>r\<close> that the caller of the
  model picks, and runs \<^verbatim>\<open>__init__\<close> on it.
\<close>

definition alloc ::
  "ref \<Rightarrow> ('u, 'l, 'n, 'c) obj \<Rightarrow> ('u, 'l, 'n, 'c, 'm) memory_scheme
     \<Rightarrow> ('u, 'l, 'n, 'c, 'm) memory_scheme" where
  "alloc r ob m = m\<lparr>heap := (heap m)(r \<mapsto> ob)\<rparr>"

definition State_new ::
  "ref \<Rightarrow> ref option \<Rightarrow> ('u, 'l, 'n, 'c, 'm) memory_scheme \<Rightarrow> ('u, 'l, 'n, 'c, 'm) memory_scheme" where
  "State_new r p m = alloc r (OState (State_init p)) m"

definition ExternBlockState_new ::
  "ref \<Rightarrow> ref option \<Rightarrow> string \<Rightarrow> ('u, 'l, 'n, 'c, 'm) memory_scheme
     \<Rightarrow> ('u, 'l, 'n, 'c, 'm) memory_scheme" where
  "ExternBlockState_new r p lk m = alloc r (OExtern (ExternBlockState_init p lk)) m"

definition NamespaceBlockState_new ::
  "ref \<Rightarrow> ref option \<Rightarrow> 'n \<Rightarrow> ('u, 'l, 'n, 'c, 'm) memory_scheme
     \<Rightarrow> ('u, 'l, 'n, 'c, 'm) memory_scheme" where
  "NamespaceBlockState_new r p ns m = alloc r (ONamespace (NamespaceBlockState_init p ns)) m"

definition ClassBlockState_new ::
  "ref \<Rightarrow> ref option \<Rightarrow> 'c \<Rightarrow> string \<Rightarrow> bool \<Rightarrow> 'l ParsedTypeModifiers
     \<Rightarrow> ('u, 'l, 'n, 'c, 'm) memory_scheme \<Rightarrow> ('u, 'l, 'n, 'c, 'm) memory_scheme" where
  "ClassBlockState_new r p cd acc td ms m =
     alloc r (OClass (ClassBlockState_init p cd acc td ms)) m"

text \<open>The four \<^verbatim>\<open>_finish\<close> methods, each with \<^verbatim>\<open>self\<close> and the visitor.\<close>

definition State_finish ::
  "ref \<Rightarrow> vref \<Rightarrow> ('u, 'l, 'n, 'c, 'm) memory_scheme \<Rightarrow> ('u, 'l, 'n, 'c, 'm) memory_scheme" where
  "State_finish self visitor m = m"

definition ExternBlockState_finish ::
  "ref \<Rightarrow> vref \<Rightarrow> ('u, 'l, 'n, 'c, 'm) memory_scheme \<Rightarrow> ('u, 'l, 'n, 'c, 'm) memory_scheme" where
  "ExternBlockState_finish self visitor m = notify visitor (on_extern_block_end self) m"

definition NamespaceBlockState_finish ::
  "ref \<Rightarrow> vref \<Rightarrow> ('u, 'l, 'n, 'c, 'm) memory_scheme \<Rightarrow> ('u, 'l, 'n, 'c, 'm) memory_scheme" where
  "NamespaceBlockState_finish self visitor m = notify visitor (on_namespace_end self) m"

definition ClassBlockState_finish ::
  "ref \<Rightarrow> vref \<Rightarrow> ('u, 'l, 'n, 'c, 'm) memory_scheme \<Rightarrow> ('u, 'l, 'n, 'c, 'm) memory_scheme" where
  "ClassBlockState_finish self visitor m = notify visitor (on_class_end self) m"

text \<open>
  The call \<^verbatim>\<open>state._finish(visitor)\<close>: method lookup by the class of the object.
  \<open>None\<close> only for a reference that names no object, which Python cannot produce.
\<close>

definition finish ::
  "ref \<Rightarrow> vref \<Rightarrow> ('u, 'l, 'n, 'c, 'm) memory_scheme
     \<Rightarrow> ('u, 'l, 'n, 'c, 'm) memory_scheme option" where
  "finish self visitor m =
     (case heap m self of
        None \<Rightarrow> None
      | Some (OState s) \<Rightarrow> Some (State_finish self visitor m)
      | Some (OExtern s) \<Rightarrow> Some (ExternBlockState_finish self visitor m)
      | Some (ONamespace s) \<Rightarrow> Some (NamespaceBlockState_finish self visitor m)
      | Some (OClass s) \<Rightarrow> Some (ClassBlockState_finish self visitor m))"

text \<open>
  \<^verbatim>\<open>ClassBlockState._set_access(self, access)\<close>. Only a class state has the method:
  on any other object the lookup fails (\<open>None\<close>).
\<close>

definition set_access ::
  "ref \<Rightarrow> string \<Rightarrow> ('u, 'l, 'n, 'c, 'm) memory_scheme
     \<Rightarrow> ('u, 'l, 'n, 'c, 'm) memory_scheme option" where
  "set_access self acc m =
     (case heap m self of
        Some (OClass s) \<Rightarrow> Some (m\<lparr>heap := (heap m)(self \<mapsto> OClass (s\<lparr>access := acc\<rparr>))\<rparr>)
      | _ \<Rightarrow> None)"

subsection \<open>The scope stack\<close>

text \<open>
  Modelled from the spec: the grammar that owns the stack (module \<^verbatim>\<open>parser\<close>) is not
  part of this file. It "pushes a new ScopeContext subtype onto the stack ... using the
  current top of stack as parent"; on the closing token it "pops the context and
  invokes its close extension point ...; the grammar then resumes operating on the
  parent context". The stack is the parent chain from the current state; \<open>None\<close> is
  the root, with no scope open. The parser holds the active visitor.
\<close>

record ('u, 'l, 'n, 'c) parser = "('u, 'l, 'n, 'c) memory" +
  state :: "ref option"
  visitor :: vref

definition parser_init :: "vref \<Rightarrow> ('u, 'l, 'n, 'c) parser" where
  "parser_init v = \<lparr>heap = Map.empty, received = (\<lambda>_. []), state = None, visitor = v\<rparr>"

definition push_state ::
  "ref \<Rightarrow> (ref \<Rightarrow> ref option \<Rightarrow> ('u, 'l, 'n, 'c) parser \<Rightarrow> ('u, 'l, 'n, 'c) parser)
     \<Rightarrow> ('u, 'l, 'n, 'c) parser \<Rightarrow> ('u, 'l, 'n, 'c) parser" where
  "push_state r new p = (new r (state p) p)\<lparr>state := Some r\<rparr>"

definition pop_state :: "('u, 'l, 'n, 'c) parser \<Rightarrow> ('u, 'l, 'n, 'c) parser option" where
  "pop_state p =
     (case state p of
        None \<Rightarrow> None
      | Some tp \<Rightarrow>
          (case finish tp (visitor p) p of
             None \<Rightarrow> None
           | Some p' \<Rightarrow>
               (case heap p' tp of
                  None \<Rightarrow> None
                | Some ob \<Rightarrow> Some (p'\<lparr>state := parent_of ob\<rparr>))))"

text \<open>
  The parser states that pushes and pops can build from the root. A push constructs one
  of the three concrete variants at a reference not in use.
\<close>

inductive reachable :: "('u, 'l, 'n, 'c) parser \<Rightarrow> bool" where
  start: "reachable (parser_init v)"
| push_extern: "reachable p \<Longrightarrow> heap p r = None \<Longrightarrow>
     reachable (push_state r (\<lambda>r par. ExternBlockState_new r par lk) p)"
| push_namespace: "reachable p \<Longrightarrow> heap p r = None \<Longrightarrow>
     reachable (push_state r (\<lambda>r par. NamespaceBlockState_new r par ns) p)"
| push_class: "reachable p \<Longrightarrow> heap p r = None \<Longrightarrow>
     reachable (push_state r (\<lambda>r par. ClassBlockState_new r par cd acc td ms) p)"
| pop: "reachable p \<Longrightarrow> pop_state p = Some p' \<Longrightarrow> reachable p'"

text \<open>
  In a list of received calls, the notification for state \<open>b\<close> comes before the first
  one for state \<open>a\<close>.
\<close>

definition delivered_before :: "ref \<Rightarrow> ref \<Rightarrow> call list \<Rightarrow> bool" where
  "delivered_before b a tr \<longleftrightarrow>
     a \<in> set (map call_arg tr) \<and> b \<in> set (takeWhile (\<lambda>r. r \<noteq> a) (map call_arg tr))"

text \<open>
  Proof devices: the open states as a list, innermost first, following the parent
  chain; the states already closed; and the invariant of the stack discipline.
\<close>

fun is_chain :: "(ref \<rightharpoonup> ('u, 'l, 'n, 'c) obj) \<Rightarrow> ref option \<Rightarrow> ref list \<Rightarrow> bool" where
  "is_chain h cur [] \<longleftrightarrow> cur = None"
| "is_chain h cur (r # rs) \<longleftrightarrow>
     cur = Some r \<and> (case h r of None \<Rightarrow> False | Some ob \<Rightarrow> is_chain h (parent_of ob) rs)"

definition closed :: "('u, 'l, 'n, 'c) parser \<Rightarrow> ref set" where
  "closed p = call_arg ` set (received p (visitor p))"

definition stack_inv :: "('u, 'l, 'n, 'c) parser \<Rightarrow> ref list \<Rightarrow> bool" where
  "stack_inv p stk \<longleftrightarrow>
     is_chain (heap p) (state p) stk \<and> distinct stk \<and>
     set stk \<inter> closed p = {} \<and> dom (heap p) = set stk \<union> closed p \<and>
     distinct (map call_arg (received p (visitor p))) \<and>
     (\<forall>r s. heap p r \<noteq> Some (OState s)) \<and>
     (\<forall>b ob a. heap p b = Some ob \<and> parent_of ob = Some a \<and> a \<in> closed p
        \<longrightarrow> delivered_before b a (received p (visitor p)))"

subsection \<open>Concrete configurations\<close>

text \<open>
  A store with a namespace state, two class states and a linkage state nested in it,
  and a base state; and the run that opens namespace \<open>n\<close>, opens class \<open>C\<close> inside it,
  and closes both.
\<close>

definition no_mods :: "unit ParsedTypeModifiers" where
  "no_mods = \<lparr>vars = [], both = [], meths = []\<rparr>"

definition example_memory :: "(unit, unit, string list, string) memory" where
  "example_memory =
     \<lparr>heap = [0 \<mapsto> ONamespace (NamespaceBlockState_init None [''n'']),
              1 \<mapsto> OClass (ClassBlockState_init (Some 0) ''C'' ''private'' False no_mods),
              2 \<mapsto> OClass (ClassBlockState_init (Some 0) ''D'' ''protected'' False no_mods),
              3 \<mapsto> OExtern (ExternBlockState_init (Some 0) ''C''),
              4 \<mapsto> OState (State_init None)],
      received = (\<lambda>_. [])\<rparr>"

definition example_run :: "(unit, unit, string list, string) parser" where
  "example_run =
     the (pop_state (the (pop_state
       (push_state 1 (\<lambda>r par. ClassBlockState_new r par ''C'' ''private'' False no_mods)
         (push_state 0 (\<lambda>r par. NamespaceBlockState_new r par [''n''])
           (parser_init 0))))))"

section \<open>Validation of modifiers\<close>

lemma for_raise_nonempty:
  "toks \<noteq> [] \<Longrightarrow> for_raise msg toks = Inl (unexpected msg (hd toks))"
  by (cases toks) simp_all

text \<open>The outcome of \<open>validate\<close>, check by check.\<close>

lemma validate_vars_violated:
  "\<not> var_ok \<Longrightarrow> vars self \<noteq> [] \<Longrightarrow>
     validate self var_ok meth_ok msg = (Inl (unexpected msg (snd (hd (vars self)))), self)"
  by (simp add: validate_def dict_values_def for_raise_nonempty hd_map)

lemma validate_meths_violated:
  "var_ok \<or> vars self = [] \<Longrightarrow> \<not> meth_ok \<Longrightarrow> meths self \<noteq> [] \<Longrightarrow>
     validate self var_ok meth_ok msg = (Inl (unexpected msg (snd (hd (meths self)))), self)"
  by (auto simp add: validate_def dict_values_def for_raise_nonempty hd_map)

lemma validate_both_violated:
  "vars self = [] \<Longrightarrow> meths self = [] \<Longrightarrow> \<not> var_ok \<Longrightarrow> \<not> meth_ok \<Longrightarrow> both self \<noteq> [] \<Longrightarrow>
     validate self var_ok meth_ok msg = (Inl (unexpected msg (snd (hd (both self)))), self)"
  by (simp add: validate_def dict_values_def for_raise_nonempty hd_map)

lemma validate_no_violation:
  "var_ok \<or> vars self = [] \<Longrightarrow> meth_ok \<or> meths self = [] \<Longrightarrow>
   var_ok \<or> meth_ok \<or> both self = [] \<Longrightarrow>
     validate self var_ok meth_ok msg = (Inr (), self)"
  by (auto simp add: validate_def)

lemma validate_failure_offender:
  assumes "fst (validate self var_ok meth_ok msg) = Inl e"
  shows "\<exists>d. ((\<not> var_ok \<and> d = vars self) \<or> (\<not> meth_ok \<and> d = meths self) \<or>
              (\<not> var_ok \<and> \<not> meth_ok \<and> d = both self))
            \<and> d \<noteq> [] \<and> e = unexpected msg (snd (hd d))"
proof (cases "\<not> var_ok \<and> vars self \<noteq> []")
  case True
  with assms have "e = unexpected msg (snd (hd (vars self)))"
    by (simp add: validate_vars_violated)
  with True show ?thesis by blast
next
  case nv: False
  show ?thesis
  proof (cases "\<not> meth_ok \<and> meths self \<noteq> []")
    case True
    with nv assms have "e = unexpected msg (snd (hd (meths self)))"
      by (simp add: validate_meths_violated)
    with True show ?thesis by blast
  next
    case nm: False
    show ?thesis
    proof (cases "\<not> var_ok \<and> \<not> meth_ok \<and> both self \<noteq> []")
      case True
      with nv nm have "vars self = []" "meths self = []" by auto
      with True assms have "e = unexpected msg (snd (hd (both self)))"
        by (simp add: validate_both_violated)
      with True show ?thesis by blast
    next
      case False
      with nv nm have "validate self var_ok meth_ok msg = (Inr (), self)"
        by (intro validate_no_violation) auto
      with assms show ?thesis by simp
    qed
  qed
qed

lemma validate_outcome:
  "fst (validate self var_ok meth_ok msg) =
     (if \<not> var_ok \<and> vars self \<noteq> [] then Inl (unexpected msg (snd (hd (vars self))))
      else if \<not> meth_ok \<and> meths self \<noteq> [] then Inl (unexpected msg (snd (hd (meths self))))
      else if \<not> meth_ok \<and> \<not> var_ok \<and> both self \<noteq> []
        then Inl (unexpected msg (snd (hd (both self))))
      else Inr ())"
  by (simp add: validate_def dict_values_def for_raise_nonempty hd_map)

lemma same_spellings_head:
  assumes "map (\<lambda>(k, t). tok_value t) d' = map (\<lambda>(k, t). tok_value t) d"
  shows "(d' = [] \<longleftrightarrow> d = []) \<and> (d \<noteq> [] \<longrightarrow> unexpected msg (snd (hd d')) = unexpected msg (snd (hd d)))"
proof (cases d)
  case Nil
  with assms show ?thesis by simp
next
  case (Cons x xs)
  with assms obtain x' xs' where d': "d' = x' # xs'"
    by (cases d') auto
  with Cons assms have "tok_value (snd x') = tok_value (snd x)"
    by (cases x, cases x') simp
  with Cons d' show ?thesis
    by (simp add: unexpected_def)
qed

lemma message_unexpected:
  "message (unexpected msg tok) = msg @ '': unexpected '' @ [CHR 0x27] @ tok_value tok @ [CHR 0x27]"
  by (simp add: unexpected_def)

lemma unexpected_contains_msg: "sublist msg (message (unexpected msg tok))"
  unfolding message_unexpected by (rule prefix_imp_sublist) simp

lemma unexpected_contains_spelling: "sublist (tok_value tok) (message (unexpected msg tok))"
proof -
  have "message (unexpected msg tok) =
      (msg @ '': unexpected '' @ [CHR 0x27]) @ tok_value tok @ [CHR 0x27]"
    by (simp add: message_unexpected)
  then show ?thesis by (simp only: sublist_appendI)
qed

lemma unexpected_inject:
  "unexpected msg t = unexpected msg t' \<longleftrightarrow> tok_value t = tok_value t'"
  by (simp add: unexpected_def)

text \<open>
  C1. \<open>validate\<close> fails with a parse error if and only if at least one of these holds:
  \<open>var_ok\<close> is false and \<open>vars\<close> is not empty; \<open>meth_ok\<close> is false and \<open>meths\<close> is
  not empty; both flags are false and \<open>both\<close> is not empty. When none of the three
  holds, and in particular whenever both flags are true, it returns normally and leaves
  the classification as it was.
\<close>

theorem validate_fails_iff:
  "((\<exists>e. fst (validate self var_ok meth_ok msg) = Inl e) \<longleftrightarrow>
      (\<not> var_ok \<and> vars self \<noteq> []) \<or> (\<not> meth_ok \<and> meths self \<noteq> []) \<or>
      (\<not> var_ok \<and> \<not> meth_ok \<and> both self \<noteq> []))
   \<and> (\<not> ((\<not> var_ok \<and> vars self \<noteq> []) \<or> (\<not> meth_ok \<and> meths self \<noteq> []) \<or>
           (\<not> var_ok \<and> \<not> meth_ok \<and> both self \<noteq> []))
        \<longrightarrow> validate self var_ok meth_ok msg = (Inr (), self))
   \<and> (var_ok \<and> meth_ok \<longrightarrow> validate self var_ok meth_ok msg = (Inr (), self))"
proof -
  let ?viol = "(\<not> var_ok \<and> vars self \<noteq> []) \<or> (\<not> meth_ok \<and> meths self \<noteq> []) \<or>
      (\<not> var_ok \<and> \<not> meth_ok \<and> both self \<noteq> [])"
  have ok: "validate self var_ok meth_ok msg = (Inr (), self)" if "\<not> ?viol"
    using that by (intro validate_no_violation) auto
  have bad: "\<exists>e. fst (validate self var_ok meth_ok msg) = Inl e" if v: "?viol"
  proof (cases "\<not> var_ok \<and> vars self \<noteq> []")
    case True
    then show ?thesis by (simp add: validate_vars_violated)
  next
    case nv: False
    show ?thesis
    proof (cases "\<not> meth_ok \<and> meths self \<noteq> []")
      case True
      with nv show ?thesis by (simp add: validate_meths_violated)
    next
      case False
      with nv v have "vars self = []" "meths self = []" "\<not> var_ok" "\<not> meth_ok" "both self \<noteq> []"
        by auto
      then show ?thesis by (simp add: validate_both_violated)
    qed
  qed
  have "(\<exists>e. fst (validate self var_ok meth_ok msg) = Inl e) \<longleftrightarrow> ?viol"
    using ok bad by (cases "?viol") auto
  moreover have "var_ok \<and> meth_ok \<longrightarrow> validate self var_ok meth_ok msg = (Inr (), self)"
    using ok by blast
  ultimately show ?thesis using ok by blast
qed

text \<open>
  With both flags true a classification with all three mappings filled passes; the
  mapping \<open>both = {"static": tok}\<close> fails when both flags are false and passes when
  \<open>var_ok\<close> is true.
\<close>

theorem validate_fails_iff_witness:
  "validate \<lparr>vars = [(''mutable'', \<lparr>tok_value = ''mutable'', tok_location = (1::nat)\<rparr>)],
             both = [(''static'', \<lparr>tok_value = ''static'', tok_location = 2\<rparr>)],
             meths = [(''virtual'', \<lparr>tok_value = ''virtual'', tok_location = 3\<rparr>)]\<rparr>
     True True []
   = (Inr (), \<lparr>vars = [(''mutable'', \<lparr>tok_value = ''mutable'', tok_location = 1\<rparr>)],
             both = [(''static'', \<lparr>tok_value = ''static'', tok_location = 2\<rparr>)],
             meths = [(''virtual'', \<lparr>tok_value = ''virtual'', tok_location = 3\<rparr>)]\<rparr>)
   \<and> (\<exists>e. fst (validate \<lparr>vars = [],
             both = [(''static'', \<lparr>tok_value = ''static'', tok_location = (2::nat)\<rparr>)],
             meths = []\<rparr> False False ''ctx'') = Inl e)
   \<and> validate \<lparr>vars = [],
             both = [(''static'', \<lparr>tok_value = ''static'', tok_location = (2::nat)\<rparr>)],
             meths = []\<rparr> True False ''ctx''
       = (Inr (), \<lparr>vars = [],
             both = [(''static'', \<lparr>tok_value = ''static'', tok_location = 2\<rparr>)],
             meths = []\<rparr>)"
  using
    validate_fails_iff [where var_ok = True and meth_ok = True and msg = "[]" and
      self = "\<lparr>vars = [(''mutable'', \<lparr>tok_value = ''mutable'', tok_location = (1::nat)\<rparr>)],
             both = [(''static'', \<lparr>tok_value = ''static'', tok_location = 2\<rparr>)],
             meths = [(''virtual'', \<lparr>tok_value = ''virtual'', tok_location = 3\<rparr>)]\<rparr>"]
    validate_fails_iff [where var_ok = False and meth_ok = False and msg = "''ctx''" and
      self = "\<lparr>vars = [],
             both = [(''static'', \<lparr>tok_value = ''static'', tok_location = (2::nat)\<rparr>)],
             meths = []\<rparr>"]
    validate_fails_iff [where var_ok = True and meth_ok = False and msg = "''ctx''" and
      self = "\<lparr>vars = [],
             both = [(''static'', \<lparr>tok_value = ''static'', tok_location = (2::nat)\<rparr>)],
             meths = []\<rparr>"]
  by simp

text \<open>
  C2. Whenever \<open>validate\<close> fails, the error message is the context message, then
  \<^verbatim>\<open>: unexpected '\<close>, then \<^verbatim>\<open>tok.value\<close> and a closing quote, where \<open>tok\<close> is
  the token of the first entry of a violated mapping (\<open>vars\<close> with \<open>var_ok\<close> false,
  \<open>meths\<close> with \<open>meth_ok\<close> false, or \<open>both\<close> with both flags false). So the
  message contains the context message and the spelling that the offending token
  carries; it contains the key of that entry when the token is spelled as its key. In
  particular, with \<open>vars = {"mutable": tok}\<close> and \<open>tok.value = "mutable"\<close>, and
  \<open>both\<close> and \<open>meths\<close> arbitrary, \<open>validate(var_ok=False, meth_ok=True, "ctx")\<close>
  fails with the message \<^verbatim>\<open>ctx: unexpected 'mutable'\<close>, which contains \<open>ctx\<close> and
  \<open>mutable\<close>.
\<close>

theorem validate_message_contents:
  "(fst (validate self var_ok meth_ok msg) = Inl e \<longrightarrow>
      (\<exists>d kw tok rest.
         d = (kw, tok) # rest \<and>
         ((\<not> var_ok \<and> d = vars self) \<or> (\<not> meth_ok \<and> d = meths self) \<or>
          (\<not> var_ok \<and> \<not> meth_ok \<and> d = both self)) \<and>
         message e = msg @ '': unexpected '' @ [CHR 0x27] @ tok_value tok @ [CHR 0x27] \<and>
         sublist msg (message e) \<and> sublist (tok_value tok) (message e) \<and>
         (tok_value tok = kw \<longrightarrow> sublist kw (message e))))
   \<and> (tok_value mtok = ''mutable'' \<longrightarrow>
        (\<exists>e'. fst (validate \<lparr>vars = [(''mutable'', mtok)], both = b, meths = m\<rparr>
                     False True ''ctx'') = Inl e'
          \<and> message e' = ''ctx: unexpected '' @ [CHR 0x27] @ ''mutable'' @ [CHR 0x27]
          \<and> sublist ''ctx'' (message e') \<and> sublist ''mutable'' (message e')))"
proof (intro conjI impI)
  assume "fst (validate self var_ok meth_ok msg) = Inl e"
  from validate_failure_offender [OF this]
  obtain d where v: "(\<not> var_ok \<and> d = vars self) \<or> (\<not> meth_ok \<and> d = meths self) \<or>
              (\<not> var_ok \<and> \<not> meth_ok \<and> d = both self)"
    and ne: "d \<noteq> []" and e: "e = unexpected msg (snd (hd d))"
    by blast
  from ne obtain kw tok rest where d: "d = (kw, tok) # rest"
    by (cases d) auto
  then have hd: "snd (hd d) = tok" by simp
  have m: "message e = msg @ '': unexpected '' @ [CHR 0x27] @ tok_value tok @ [CHR 0x27]"
    by (simp only: e hd message_unexpected)
  have s1: "sublist msg (message e)" and s2: "sublist (tok_value tok) (message e)"
    by (simp_all only: e hd unexpected_contains_msg unexpected_contains_spelling)
  from s2 have s3: "tok_value tok = kw \<longrightarrow> sublist kw (message e)"
    by blast
  from d v m s1 s2 s3
  show "\<exists>d kw tok rest.
         d = (kw, tok) # rest \<and>
         ((\<not> var_ok \<and> d = vars self) \<or> (\<not> meth_ok \<and> d = meths self) \<or>
          (\<not> var_ok \<and> \<not> meth_ok \<and> d = both self)) \<and>
         message e = msg @ '': unexpected '' @ [CHR 0x27] @ tok_value tok @ [CHR 0x27] \<and>
         sublist msg (message e) \<and> sublist (tok_value tok) (message e) \<and>
         (tok_value tok = kw \<longrightarrow> sublist kw (message e))"
    by blast
next
  assume sp: "tok_value mtok = ''mutable''"
  let ?self = "\<lparr>vars = [(''mutable'', mtok)], both = b, meths = m\<rparr>"
  have "vars ?self \<noteq> []" and hd: "snd (hd (vars ?self)) = mtok"
    by simp_all
  then have run: "fst (validate ?self False True ''ctx'') = Inl (unexpected ''ctx'' mtok)"
    using validate_vars_violated [of False ?self True "''ctx''"] by (simp only: fst_conv not_False_eq_True)
  have c0: "message (unexpected ''ctx'' mtok) = ''ctx: unexpected '' @ [CHR 0x27] @ ''mutable'' @ [CHR 0x27]"
    by (simp add: message_unexpected sp)
  have c1: "sublist ''ctx'' (message (unexpected ''ctx'' mtok))"
    by (rule unexpected_contains_msg)
  have c2: "sublist ''mutable'' (message (unexpected ''ctx'' mtok))"
    using unexpected_contains_spelling [of mtok "''ctx''"] by (simp only: sp)
  from run c0 c1 c2 show "\<exists>e'. fst (validate ?self False True ''ctx'') = Inl e'
          \<and> message e' = ''ctx: unexpected '' @ [CHR 0x27] @ ''mutable'' @ [CHR 0x27]
          \<and> sublist ''ctx'' (message e') \<and> sublist ''mutable'' (message e')"
    by blast
qed

text \<open>
  The entry \<open>"mutable"\<close> holding the token spelled \<open>mutable\<close> at location 7: the
  call fails with \<^verbatim>\<open>ctx: unexpected 'mutable'\<close>.
\<close>

theorem validate_message_contents_witness:
  "fst (validate \<lparr>vars = [(''mutable'', \<lparr>tok_value = ''mutable'', tok_location = (7::nat)\<rparr>)],
                  both = [], meths = []\<rparr> False True ''ctx'')
     = Inl (CxxParseError (''ctx: unexpected '' @ [CHR 0x27] @ ''mutable'' @ [CHR 0x27]))
   \<and> sublist ''ctx'' (''ctx: unexpected '' @ [CHR 0x27] @ ''mutable'' @ [CHR 0x27])
   \<and> sublist ''mutable'' (''ctx: unexpected '' @ [CHR 0x27] @ ''mutable'' @ [CHR 0x27])"
proof -
  let ?tok = "\<lparr>tok_value = ''mutable'', tok_location = (7::nat)\<rparr>"
  let ?self = "\<lparr>vars = [(''mutable'', ?tok)], both = [], meths = []\<rparr>"
  let ?m = "''ctx: unexpected '' @ [CHR 0x27] @ ''mutable'' @ [CHR 0x27]"
  have sp: "tok_value ?tok = ''mutable''"
    by simp
  note inst = validate_message_contents [where self = ?self and var_ok = False and meth_ok = True
      and msg = "''ctx''" and e = "CxxParseError ?m" and mtok = ?tok and b = "[]" and m = "[]"]
  from inst sp obtain e' where e': "fst (validate ?self False True ''ctx'') = Inl e'"
    "message e' = ?m" "sublist ''ctx'' (message e')"
    by blast
  from e'(2) have "e' = CxxParseError ?m"
    by (cases e') simp
  with e' have run: "fst (validate ?self False True ''ctx'') = Inl (CxxParseError ?m)"
    and s1: "sublist ''ctx'' ?m"
    by simp_all
  from inst run obtain d kw tok rest where g: "d = (kw, tok) # rest"
    "(\<not> False \<and> d = vars ?self) \<or> (\<not> True \<and> d = meths ?self) \<or> (\<not> False \<and> \<not> True \<and> d = both ?self)"
    "tok_value tok = kw \<longrightarrow> sublist kw (message (CxxParseError ?m))"
    by blast
  from g(2) have "d = [(''mutable'', ?tok)]"
    by simp
  with g(1) have "(kw, tok) # rest = [(''mutable'', ?tok)]"
    by (simp only:)
  then have kw: "kw = ''mutable''" and tok: "tok = ?tok"
    by (simp_all only: list.inject prod.inject)
  have "tok_value tok = kw"
    unfolding kw tok by (rule sp)
  with g(3) have "sublist kw (message (CxxParseError ?m))"
    by blast
  then have s2: "sublist ''mutable'' ?m"
    unfolding kw CxxParseError.sel .
  from run s1 s2 show ?thesis
    by (intro conjI)
qed

text \<open>
  The message is built from the token, not from the key: for \<open>vars = {"mutable": tok}\<close>
  with a token spelled \<open>constexpr\<close>, the call fails with
  \<^verbatim>\<open>ctx: unexpected 'constexpr'\<close>, which does not contain \<open>mutable\<close>.
\<close>

theorem validate_message_key_counterexample:
  "fst (validate
         \<lparr>vars = [(''mutable'', \<lparr>tok_value = ''constexpr'', tok_location = (1::nat)\<rparr>)],
          both = [], meths = []\<rparr> False True ''ctx'')
     = Inl (CxxParseError (''ctx: unexpected '' @ [CHR 0x27] @ ''constexpr'' @ [CHR 0x27]))
   \<and> \<not> sublist ''mutable'' (''ctx: unexpected '' @ [CHR 0x27] @ ''constexpr'' @ [CHR 0x27])"
proof
  show "fst (validate
         \<lparr>vars = [(''mutable'', \<lparr>tok_value = ''constexpr'', tok_location = (1::nat)\<rparr>)],
          both = [], meths = []\<rparr> False True ''ctx'')
     = Inl (CxxParseError (''ctx: unexpected '' @ [CHR 0x27] @ ''constexpr'' @ [CHR 0x27]))"
    by (simp add: validate_def dict_values_def unexpected_def)
  show "\<not> sublist ''mutable'' (''ctx: unexpected '' @ [CHR 0x27] @ ''constexpr'' @ [CHR 0x27])"
    by (simp add: sublist_Cons_right prefix_Cons)
qed

text \<open>
  C5. The keyword reported is the first entry, in insertion order, of the mapping whose
  check fires, whatever entries follow it: the error message is the context message,
  then \<^verbatim>\<open>: unexpected '\<close>, the spelling of that first token and a closing quote. The
  mapping is \<open>vars\<close> when its check fires, \<open>meths\<close> when the check of \<open>vars\<close> does
  not fire and that of \<open>meths\<close> does, \<open>both\<close> when only the last check fires. The
  outcome is determined by the arguments and by the spellings of the tokens, in order:
  two classifications that hold tokens of the same spellings in the same order, and so
  in particular two identical classifications, give the same outcome with the same
  arguments, whatever the keys and locations are.
\<close>

theorem validate_reports_first_entry:
  "(\<not> var_ok \<and> vars self = (kw, tok) # rest \<longrightarrow>
      fst (validate self var_ok meth_ok msg) =
        Inl (CxxParseError (msg @ '': unexpected '' @ [CHR 0x27] @ tok_value tok @ [CHR 0x27])))
   \<and> ((var_ok \<or> vars self = []) \<and> \<not> meth_ok \<and> meths self = (kw, tok) # rest \<longrightarrow>
      fst (validate self var_ok meth_ok msg) =
        Inl (CxxParseError (msg @ '': unexpected '' @ [CHR 0x27] @ tok_value tok @ [CHR 0x27])))
   \<and> (\<not> var_ok \<and> \<not> meth_ok \<and> vars self = [] \<and> meths self = [] \<and> both self = (kw, tok) # rest \<longrightarrow>
      fst (validate self var_ok meth_ok msg) =
        Inl (CxxParseError (msg @ '': unexpected '' @ [CHR 0x27] @ tok_value tok @ [CHR 0x27])))
   \<and> (map (\<lambda>(k, t). tok_value t) (vars self') = map (\<lambda>(k, t). tok_value t) (vars self) \<and>
       map (\<lambda>(k, t). tok_value t) (meths self') = map (\<lambda>(k, t). tok_value t) (meths self) \<and>
       map (\<lambda>(k, t). tok_value t) (both self') = map (\<lambda>(k, t). tok_value t) (both self) \<longrightarrow>
      fst (validate self' var_ok meth_ok msg) = fst (validate self var_ok meth_ok msg))"
proof (intro conjI impI)
  assume "\<not> var_ok \<and> vars self = (kw, tok) # rest"
  then show "fst (validate self var_ok meth_ok msg) =
        Inl (CxxParseError (msg @ '': unexpected '' @ [CHR 0x27] @ tok_value tok @ [CHR 0x27]))"
    by (simp add: validate_vars_violated unexpected_def)
next
  assume "(var_ok \<or> vars self = []) \<and> \<not> meth_ok \<and> meths self = (kw, tok) # rest"
  then show "fst (validate self var_ok meth_ok msg) =
        Inl (CxxParseError (msg @ '': unexpected '' @ [CHR 0x27] @ tok_value tok @ [CHR 0x27]))"
    by (simp add: validate_meths_violated unexpected_def)
next
  assume "\<not> var_ok \<and> \<not> meth_ok \<and> vars self = [] \<and> meths self = [] \<and> both self = (kw, tok) # rest"
  then show "fst (validate self var_ok meth_ok msg) =
        Inl (CxxParseError (msg @ '': unexpected '' @ [CHR 0x27] @ tok_value tok @ [CHR 0x27]))"
    by (simp add: validate_both_violated unexpected_def)
next
  assume a: "map (\<lambda>(k, t). tok_value t) (vars self') = map (\<lambda>(k, t). tok_value t) (vars self) \<and>
       map (\<lambda>(k, t). tok_value t) (meths self') = map (\<lambda>(k, t). tok_value t) (meths self) \<and>
       map (\<lambda>(k, t). tok_value t) (both self') = map (\<lambda>(k, t). tok_value t) (both self)"
  from a have v: "(vars self' = [] \<longleftrightarrow> vars self = [])"
    "vars self \<noteq> [] \<longrightarrow> unexpected msg (snd (hd (vars self'))) = unexpected msg (snd (hd (vars self)))"
    using same_spellings_head [of "vars self'" "vars self" msg] by blast+
  from a have m: "(meths self' = [] \<longleftrightarrow> meths self = [])"
    "meths self \<noteq> [] \<longrightarrow> unexpected msg (snd (hd (meths self'))) = unexpected msg (snd (hd (meths self)))"
    using same_spellings_head [of "meths self'" "meths self" msg] by blast+
  from a have b: "(both self' = [] \<longleftrightarrow> both self = [])"
    "both self \<noteq> [] \<longrightarrow> unexpected msg (snd (hd (both self'))) = unexpected msg (snd (hd (both self)))"
    using same_spellings_head [of "both self'" "both self" msg] by blast+
  show "fst (validate self' var_ok meth_ok msg) = fst (validate self var_ok meth_ok msg)"
    unfolding validate_outcome using v m b by simp
qed

text \<open>
  With \<open>meths = {"virtual": t1, "override": t2}\<close> the message is
  \<^verbatim>\<open>ctx: unexpected 'virtual'\<close>, and it is the same when the two tokens stand at
  other locations.
\<close>

theorem validate_reports_first_entry_witness:
  "fst (validate
         \<lparr>vars = [], both = [],
          meths = [(''virtual'', \<lparr>tok_value = ''virtual'', tok_location = (4::nat)\<rparr>),
                   (''override'', \<lparr>tok_value = ''override'', tok_location = 9\<rparr>)]\<rparr>
         True False ''ctx'')
     = Inl (CxxParseError (''ctx: unexpected '' @ [CHR 0x27] @ ''virtual'' @ [CHR 0x27]))
   \<and> fst (validate
         \<lparr>vars = [], both = [],
          meths = [(''virtual'', \<lparr>tok_value = ''virtual'', tok_location = (40::nat)\<rparr>),
                   (''override'', \<lparr>tok_value = ''override'', tok_location = 90\<rparr>)]\<rparr>
         True False ''ctx'')
     = Inl (CxxParseError (''ctx: unexpected '' @ [CHR 0x27] @ ''virtual'' @ [CHR 0x27]))"
  using validate_reports_first_entry [where var_ok = True and meth_ok = False and msg = "''ctx''"
      and kw = "''virtual''" and tok = "\<lparr>tok_value = ''virtual'', tok_location = (4::nat)\<rparr>"
      and rest = "[(''override'', \<lparr>tok_value = ''override'', tok_location = 9\<rparr>)]"
      and self = "\<lparr>vars = [], both = [],
          meths = [(''virtual'', \<lparr>tok_value = ''virtual'', tok_location = (4::nat)\<rparr>),
                   (''override'', \<lparr>tok_value = ''override'', tok_location = 9\<rparr>)]\<rparr>"
      and self' = "\<lparr>vars = [], both = [],
          meths = [(''virtual'', \<lparr>tok_value = ''virtual'', tok_location = (40::nat)\<rparr>),
                   (''override'', \<lparr>tok_value = ''override'', tok_location = 90\<rparr>)]\<rparr>"]
  by simp

text \<open>
  C9. When several partitions are in violation at once, the reported token comes from
  the first violated one in the order \<open>vars\<close>, \<open>meths\<close>, \<open>both\<close>: from \<open>vars\<close>
  whenever \<open>var_ok\<close> is false and \<open>vars\<close> is not empty, whatever \<open>meths\<close> and
  \<open>both\<close> hold; from \<open>meths\<close> when \<open>vars\<close> is not violated and \<open>meths\<close> is; from
  \<open>both\<close> only when neither is. The error is never the one for a token of a later
  partition whose spelling no token of the reporting partition has.
\<close>

theorem validate_partition_priority:
  "(\<not> var_ok \<and> vars self \<noteq> [] \<longrightarrow>
      (\<exists>tok \<in> set (dict_values (vars self)).
          fst (validate self var_ok meth_ok msg) = Inl (unexpected msg tok)) \<and>
      (\<forall>t \<in> set (dict_values (meths self)) \<union> set (dict_values (both self)).
          tok_value t \<notin> tok_value ` set (dict_values (vars self)) \<longrightarrow>
          fst (validate self var_ok meth_ok msg) \<noteq> Inl (unexpected msg t)))
   \<and> ((var_ok \<or> vars self = []) \<and> \<not> meth_ok \<and> meths self \<noteq> [] \<longrightarrow>
      (\<exists>tok \<in> set (dict_values (meths self)).
          fst (validate self var_ok meth_ok msg) = Inl (unexpected msg tok)) \<and>
      (\<forall>t \<in> set (dict_values (both self)).
          tok_value t \<notin> tok_value ` set (dict_values (meths self)) \<longrightarrow>
          fst (validate self var_ok meth_ok msg) \<noteq> Inl (unexpected msg t)))
   \<and> ((var_ok \<or> vars self = []) \<and> (meth_ok \<or> meths self = []) \<and>
        \<not> var_ok \<and> \<not> meth_ok \<and> both self \<noteq> [] \<longrightarrow>
      (\<exists>tok \<in> set (dict_values (both self)).
          fst (validate self var_ok meth_ok msg) = Inl (unexpected msg tok)))"
proof -
  have first_in: "snd (hd d) \<in> set (dict_values d)" if "d \<noteq> []" for d :: "'a modifier_dict"
    using that by (cases d) (simp_all add: dict_values_def)
  have differs: "Inl (unexpected msg (snd (hd d))) \<noteq> (Inl (unexpected msg t) :: CxxParseError + unit)"
    if "d \<noteq> []" and "tok_value t \<notin> tok_value ` set (dict_values d)"
    for d :: "'a modifier_dict" and t
  proof -
    from that(1) have "tok_value (snd (hd d)) \<in> tok_value ` set (dict_values d)"
      by (intro imageI first_in)
    with that(2) have "tok_value (snd (hd d)) \<noteq> tok_value t"
      by auto
    then show ?thesis
      by (simp add: unexpected_inject)
  qed
  have p1: "(\<exists>tok \<in> set (dict_values (vars self)).
          fst (validate self var_ok meth_ok msg) = Inl (unexpected msg tok)) \<and>
      (\<forall>t \<in> set (dict_values (meths self)) \<union> set (dict_values (both self)).
          tok_value t \<notin> tok_value ` set (dict_values (vars self)) \<longrightarrow>
          fst (validate self var_ok meth_ok msg) \<noteq> Inl (unexpected msg t))"
    if "\<not> var_ok \<and> vars self \<noteq> []"
  proof -
    from that have r: "fst (validate self var_ok meth_ok msg) = Inl (unexpected msg (snd (hd (vars self))))"
      by (simp add: validate_vars_violated)
    from that show ?thesis
      unfolding r using first_in [of "vars self"] differs [of "vars self"] by blast
  qed
  have p2: "(\<exists>tok \<in> set (dict_values (meths self)).
          fst (validate self var_ok meth_ok msg) = Inl (unexpected msg tok)) \<and>
      (\<forall>t \<in> set (dict_values (both self)).
          tok_value t \<notin> tok_value ` set (dict_values (meths self)) \<longrightarrow>
          fst (validate self var_ok meth_ok msg) \<noteq> Inl (unexpected msg t))"
    if "(var_ok \<or> vars self = []) \<and> \<not> meth_ok \<and> meths self \<noteq> []"
  proof -
    from that have r: "fst (validate self var_ok meth_ok msg) = Inl (unexpected msg (snd (hd (meths self))))"
      by (simp add: validate_meths_violated)
    from that show ?thesis
      unfolding r using first_in [of "meths self"] differs [of "meths self"] by blast
  qed
  have p3: "\<exists>tok \<in> set (dict_values (both self)).
          fst (validate self var_ok meth_ok msg) = Inl (unexpected msg tok)"
    if "(var_ok \<or> vars self = []) \<and> (meth_ok \<or> meths self = []) \<and>
        \<not> var_ok \<and> \<not> meth_ok \<and> both self \<noteq> []"
  proof -
    from that have "vars self = []" "meths self = []" "\<not> var_ok" "\<not> meth_ok" "both self \<noteq> []"
      by auto
    then have r: "fst (validate self var_ok meth_ok msg) = Inl (unexpected msg (snd (hd (both self))))"
      by (simp add: validate_both_violated)
    from \<open>both self \<noteq> []\<close> show ?thesis
      unfolding r using first_in [of "both self"] by blast
  qed
  show ?thesis
  proof (intro conjI impI)
    assume a: "\<not> var_ok \<and> vars self \<noteq> []"
    from p1 [OF a] show "\<exists>tok \<in> set (dict_values (vars self)).
          fst (validate self var_ok meth_ok msg) = Inl (unexpected msg tok)" ..
    from p1 [OF a] show "\<forall>t \<in> set (dict_values (meths self)) \<union> set (dict_values (both self)).
          tok_value t \<notin> tok_value ` set (dict_values (vars self)) \<longrightarrow>
          fst (validate self var_ok meth_ok msg) \<noteq> Inl (unexpected msg t)" ..
  next
    assume a: "(var_ok \<or> vars self = []) \<and> \<not> meth_ok \<and> meths self \<noteq> []"
    from p2 [OF a] show "\<exists>tok \<in> set (dict_values (meths self)).
          fst (validate self var_ok meth_ok msg) = Inl (unexpected msg tok)" ..
    from p2 [OF a] show "\<forall>t \<in> set (dict_values (both self)).
          tok_value t \<notin> tok_value ` set (dict_values (meths self)) \<longrightarrow>
          fst (validate self var_ok meth_ok msg) \<noteq> Inl (unexpected msg t)" ..
  next
    assume a: "(var_ok \<or> vars self = []) \<and> (meth_ok \<or> meths self = []) \<and>
        \<not> var_ok \<and> \<not> meth_ok \<and> both self \<noteq> []"
    from p3 [OF a] show "\<exists>tok \<in> set (dict_values (both self)).
          fst (validate self var_ok meth_ok msg) = Inl (unexpected msg tok)" .
  qed
qed

text \<open>
  With both flags false and all three mappings filled, the error names \<open>mutable\<close>
  (from \<open>vars\<close>), not \<open>virtual\<close> (from \<open>meths\<close>) and not \<open>static\<close> (from \<open>both\<close>).
\<close>

theorem validate_partition_priority_witness:
  "fst (validate
         \<lparr>vars = [(''mutable'', \<lparr>tok_value = ''mutable'', tok_location = (1::nat)\<rparr>)],
          both = [(''static'', \<lparr>tok_value = ''static'', tok_location = 2\<rparr>)],
          meths = [(''virtual'', \<lparr>tok_value = ''virtual'', tok_location = 3\<rparr>)]\<rparr>
         False False ''ctx'')
     = Inl (unexpected ''ctx'' \<lparr>tok_value = ''mutable'', tok_location = (1::nat)\<rparr>)
   \<and> fst (validate
         \<lparr>vars = [(''mutable'', \<lparr>tok_value = ''mutable'', tok_location = (1::nat)\<rparr>)],
          both = [(''static'', \<lparr>tok_value = ''static'', tok_location = 2\<rparr>)],
          meths = [(''virtual'', \<lparr>tok_value = ''virtual'', tok_location = 3\<rparr>)]\<rparr>
         False False ''ctx'')
     \<noteq> Inl (unexpected ''ctx'' \<lparr>tok_value = ''virtual'', tok_location = (3::nat)\<rparr>)
   \<and> fst (validate
         \<lparr>vars = [(''mutable'', \<lparr>tok_value = ''mutable'', tok_location = (1::nat)\<rparr>)],
          both = [(''static'', \<lparr>tok_value = ''static'', tok_location = 2\<rparr>)],
          meths = [(''virtual'', \<lparr>tok_value = ''virtual'', tok_location = 3\<rparr>)]\<rparr>
         False False ''ctx'')
     \<noteq> Inl (unexpected ''ctx'' \<lparr>tok_value = ''static'', tok_location = (2::nat)\<rparr>)"
  using validate_partition_priority [where var_ok = False and meth_ok = False and msg = "''ctx''"
      and self = "\<lparr>vars = [(''mutable'', \<lparr>tok_value = ''mutable'', tok_location = (1::nat)\<rparr>)],
          both = [(''static'', \<lparr>tok_value = ''static'', tok_location = 2\<rparr>)],
          meths = [(''virtual'', \<lparr>tok_value = ''virtual'', tok_location = 3\<rparr>)]\<rparr>"]
  by (simp add: dict_values_def unexpected_inject)

text \<open>
  C10. \<open>validate\<close> never changes the classification: after any call, failing or not,
  the classification, and so each of \<open>vars\<close>, \<open>both\<close> and \<open>meths\<close>, is what it was
  before the call.
\<close>

theorem validate_immutable:
  "snd (validate self var_ok meth_ok msg) = self
   \<and> vars (snd (validate self var_ok meth_ok msg)) = vars self
   \<and> both (snd (validate self var_ok meth_ok msg)) = both self
   \<and> meths (snd (validate self var_ok meth_ok msg)) = meths self"
proof -
  have "snd (validate self var_ok meth_ok msg) = self"
    by (simp add: validate_def split: sum.split)
  then show ?thesis by simp
qed

section \<open>Scope states: construction, access, closing\<close>

lemma State_init_record:
  "State_init p = \<lparr>parent = p, user_data = None, location = None, prior_visitor = None\<rparr>"
  by (simp add: State_init_def)

lemma ExternBlockState_init_record:
  "ExternBlockState_init p lk =
     \<lparr>parent = p, user_data = None, location = None, prior_visitor = None, linkage = lk\<rparr>"
  by (simp add: ExternBlockState_init_def State_init_def State.defs ExternBlockState.defs)

lemma NamespaceBlockState_init_record:
  "NamespaceBlockState_init p ns =
     \<lparr>parent = p, user_data = None, location = None, prior_visitor = None, namespace = ns\<rparr>"
  by (simp add: NamespaceBlockState_init_def State_init_def State.defs NamespaceBlockState.defs)

lemma ClassBlockState_init_record:
  "ClassBlockState_init p cd acc td ms =
     \<lparr>parent = p, user_data = None, location = None, prior_visitor = None,
      class_decl = cd, access = acc, typedef_mode = td, mods = ms\<rparr>"
  by (simp add: ClassBlockState_init_def State_init_def State.defs ClassBlockState.defs)

lemma parent_of_new [simp]:
  "parent_of (OState (State_init p)) = p"
  "parent_of (OExtern (ExternBlockState_init p lk)) = p"
  "parent_of (ONamespace (NamespaceBlockState_init p ns)) = p"
  "parent_of (OClass (ClassBlockState_init p cd acc td ms)) = p"
  by (simp_all add: parent_of_def State_init_record ExternBlockState_init_record
      NamespaceBlockState_init_record ClassBlockState_init_record)

lemma heap_alloc [simp]: "heap (alloc r ob m) = (heap m)(r \<mapsto> ob)"
  by (simp add: alloc_def)

lemma received_alloc [simp]: "received (alloc r ob m) = received m"
  by (simp add: alloc_def)

text \<open>
  C7. Construction stores the parent it is given, unmodified and unchecked: for each
  of the four classes and any parent \<open>p\<close>, absent (\<open>None\<close>, the root scope) or not,
  the new object has exactly \<open>p\<close> as its parent, and every object that existed before,
  the parent among them, is what it was.
\<close>

theorem construction_stores_parent:
  assumes "heap m r = None"
  shows "(\<exists>s. heap (State_new r p m) r = Some (OState s) \<and> parent s = p)
    \<and> (\<exists>s. heap (ExternBlockState_new r p lk m) r = Some (OExtern s) \<and> parent s = p)
    \<and> (\<exists>s. heap (NamespaceBlockState_new r p ns m) r = Some (ONamespace s) \<and> parent s = p)
    \<and> (\<exists>s. heap (ClassBlockState_new r p cd acc td ms m) r = Some (OClass s) \<and> parent s = p)
    \<and> (\<forall>r' \<in> dom (heap m).
          heap (State_new r p m) r' = heap m r' \<and>
          heap (ExternBlockState_new r p lk m) r' = heap m r' \<and>
          heap (NamespaceBlockState_new r p ns m) r' = heap m r' \<and>
          heap (ClassBlockState_new r p cd acc td ms m) r' = heap m r')"
proof (intro conjI ballI)
  show "\<exists>s. heap (State_new r p m) r = Some (OState s) \<and> parent s = p"
    by (simp add: State_new_def State_init_record)
  show "\<exists>s. heap (ExternBlockState_new r p lk m) r = Some (OExtern s) \<and> parent s = p"
    by (simp add: ExternBlockState_new_def ExternBlockState_init_record)
  show "\<exists>s. heap (NamespaceBlockState_new r p ns m) r = Some (ONamespace s) \<and> parent s = p"
    by (simp add: NamespaceBlockState_new_def NamespaceBlockState_init_record)
  show "\<exists>s. heap (ClassBlockState_new r p cd acc td ms m) r = Some (OClass s) \<and> parent s = p"
    by (simp add: ClassBlockState_new_def ClassBlockState_init_record)
next
  fix r' assume "r' \<in> dom (heap m)"
  with assms have ne: "r' \<noteq> r" by auto
  then show "heap (State_new r p m) r' = heap m r'"
    by (simp add: State_new_def)
  from ne show "heap (ExternBlockState_new r p lk m) r' = heap m r'"
    by (simp add: ExternBlockState_new_def)
  from ne show "heap (NamespaceBlockState_new r p ns m) r' = heap m r'"
    by (simp add: NamespaceBlockState_new_def)
  from ne show "heap (ClassBlockState_new r p cd acc td ms m) r' = heap m r'"
    by (simp add: ClassBlockState_new_def)
qed

text \<open>
  In the example store reference 5 is free: a base state constructed there with no
  parent has none, a class state constructed with parent 1 has parent 1, and state 1
  is untouched.
\<close>

theorem construction_stores_parent_witness:
  "heap example_memory 5 = None
   \<and> heap (State_new 5 None example_memory) 5 = Some (OState (State_init None))
   \<and> (\<exists>s. heap (ClassBlockState_new 5 (Some 1) ''E'' ''private'' False no_mods example_memory) 5
            = Some (OClass s) \<and> parent s = Some 1)
   \<and> heap (ClassBlockState_new 5 (Some 1) ''E'' ''private'' False no_mods example_memory) 1
       = heap example_memory 1"
proof -
  have f: "heap example_memory 5 = None" and d: "1 \<in> dom (heap example_memory)"
    by (simp_all add: example_memory_def)
  from construction_stores_parent [OF f, where p = "Some 1" and cd = "''E''" and acc = "''private''"
      and td = False and ms = no_mods and lk = "''C''" and ns = "[''n'']"] d
  have "(\<exists>s. heap (ClassBlockState_new 5 (Some 1) ''E'' ''private'' False no_mods example_memory) 5
            = Some (OClass s) \<and> parent s = Some 1)"
    and "heap (ClassBlockState_new 5 (Some 1) ''E'' ''private'' False no_mods example_memory) 1
       = heap example_memory 1"
    by blast+
  moreover from construction_stores_parent [OF f, where p = None and cd = "''E''" and acc = "''private''"
      and td = False and ms = no_mods and lk = "''C''" and ns = "[''n'']"]
  have "heap (State_new 5 None example_memory) 5 = Some (OState (State_init None))"
    by (simp add: State_new_def)
  ultimately show ?thesis using f by (intro conjI)
qed

text \<open>
  C8. The close operation of the base class does nothing: \<open>State._finish\<close> returns the
  memory it was given, so no visitor receives a call and no state changes; and that is
  what a call of \<open>_finish\<close> on an object of class \<open>State\<close> runs.
\<close>

theorem State_finish_noop:
  "State_finish self v m = m
   \<and> (heap m self = Some (OState s) \<longrightarrow> finish self v m = Some m)"
  by (simp add: State_finish_def finish_def)

text \<open>Object 4 of the example store is a base state.\<close>

theorem State_finish_noop_witness:
  "heap example_memory 4 = Some (OState (State_init None))
   \<and> State_finish 4 7 example_memory = example_memory
   \<and> finish 4 7 example_memory = Some example_memory"
proof -
  have h: "heap example_memory 4 = Some (OState (State_init None))"
    by (simp add: example_memory_def)
  from State_finish_noop [of 4 7 example_memory "State_init None"]
  have "State_finish 4 7 example_memory = example_memory"
    and "heap example_memory 4 = Some (OState (State_init None))
      \<longrightarrow> finish 4 7 example_memory = Some example_memory"
    by (rule conjunct1, rule conjunct2)
  with h show ?thesis by blast
qed

text \<open>
  C4. Closing a scope state delivers exactly one notification, to the visitor method
  of its variant, with the state itself as the argument, and does nothing else: for a
  linkage state the memory after \<open>_finish\<close> is the memory before with the one call
  \<open>on_extern_block_end(self)\<close> appended to what the visitor has received; for a
  namespace state the call is \<open>on_namespace_end(self)\<close>; for a class state it is
  \<open>on_class_end(self)\<close>. The store and every other visitor are unchanged.
\<close>

theorem finish_notifies_once:
  "(heap m self = Some (OExtern s1) \<longrightarrow>
      finish self v m =
        Some (m\<lparr>received := (received m)(v := received m v @ [on_extern_block_end self])\<rparr>))
   \<and> (heap m self = Some (ONamespace s2) \<longrightarrow>
      finish self v m =
        Some (m\<lparr>received := (received m)(v := received m v @ [on_namespace_end self])\<rparr>))
   \<and> (heap m self = Some (OClass s3) \<longrightarrow>
      finish self v m =
        Some (m\<lparr>received := (received m)(v := received m v @ [on_class_end self])\<rparr>))"
  by (simp add: finish_def ExternBlockState_finish_def NamespaceBlockState_finish_def
      ClassBlockState_finish_def notify_def)

text \<open>
  In the example store, closing the linkage state 3, the namespace state 0 and the
  class state 1 with visitor 7 gives that visitor one call each time.
\<close>

theorem finish_notifies_once_witness:
  "finish 3 7 example_memory =
     Some (example_memory\<lparr>received := (\<lambda>_. [])(7 := [on_extern_block_end 3])\<rparr>)
   \<and> finish 0 7 example_memory =
     Some (example_memory\<lparr>received := (\<lambda>_. [])(7 := [on_namespace_end 0])\<rparr>)
   \<and> finish 1 7 example_memory =
     Some (example_memory\<lparr>received := (\<lambda>_. [])(7 := [on_class_end 1])\<rparr>)"
proof -
  have h: "heap example_memory 3 = Some (OExtern (ExternBlockState_init (Some 0) ''C''))"
    "heap example_memory 0 = Some (ONamespace (NamespaceBlockState_init None [''n'']))"
    "heap example_memory 1 = Some (OClass (ClassBlockState_init (Some 0) ''C'' ''private'' False no_mods))"
    and r: "received example_memory = (\<lambda>_. [])"
    by (simp_all add: example_memory_def)
  from h(1) finish_notifies_once [where m = example_memory and self = 3 and v = 7
      and ?s1.0 = "ExternBlockState_init (Some 0) ''C''"]
  have 1: "finish 3 7 example_memory =
     Some (example_memory\<lparr>received := (\<lambda>_. [])(7 := [on_extern_block_end 3])\<rparr>)"
    by (simp add: r)
  from h(2) finish_notifies_once [where m = example_memory and self = 0 and v = 7
      and ?s2.0 = "NamespaceBlockState_init None [''n'']"]
  have 2: "finish 0 7 example_memory =
     Some (example_memory\<lparr>received := (\<lambda>_. [])(7 := [on_namespace_end 0])\<rparr>)"
    by (simp add: r)
  from h(3) finish_notifies_once [where m = example_memory and self = 1 and v = 7
      and ?s3.0 = "ClassBlockState_init (Some 0) ''C'' ''private'' False no_mods"]
  have 3: "finish 1 7 example_memory =
     Some (example_memory\<lparr>received := (\<lambda>_. [])(7 := [on_class_end 1])\<rparr>)"
    by (simp add: r)
  from 1 2 3 show ?thesis by (intro conjI)
qed

text \<open>
  C6. On a class state the access setter replaces the access level by its argument
  and changes nothing else: the memory after \<open>_set_access(acc)\<close> is the memory before
  with that one object's \<open>access\<close> set to \<open>acc\<close>. After setting \<open>private\<close> and then
  \<open>public\<close> the state's access is \<open>public\<close>; its parent, class_decl, typedef flag
  and mods are what they were, every other object of the store (sibling or parent) is
  what it was, and no visitor was called.
\<close>

theorem set_access_replaces_access_only:
  assumes "heap m self = Some (OClass s)"
  shows "set_access self acc m = Some (m\<lparr>heap := (heap m)(self \<mapsto> OClass (s\<lparr>access := acc\<rparr>))\<rparr>)
    \<and> (\<exists>m1 m2 s'.
      set_access self ''private'' m = Some m1 \<and> set_access self ''public'' m1 = Some m2 \<and>
      heap m2 self = Some (OClass s') \<and> s' = s\<lparr>access := ''public''\<rparr> \<and>
      access s' = ''public'' \<and> parent s' = parent s \<and> class_decl s' = class_decl s \<and>
      typedef_mode s' = typedef_mode s \<and> mods s' = mods s \<and>
      (\<forall>r. r \<noteq> self \<longrightarrow> heap m2 r = heap m r) \<and> received m2 = received m)"
  using assms by (simp add: set_access_def)

text \<open>
  In the example store, class state 1 goes from \<open>private\<close> to \<open>public\<close>; its sibling
  2 stays \<open>protected\<close> and its parent 0 is unchanged.
\<close>

theorem set_access_replaces_access_only_witness:
  "\<exists>m1 m2. set_access 1 ''private'' example_memory = Some m1 \<and>
      set_access 1 ''public'' m1 = Some m2 \<and>
      heap m2 1 = Some (OClass (ClassBlockState_init (Some 0) ''C'' ''public'' False no_mods)) \<and>
      heap m2 0 = heap example_memory 0 \<and> heap m2 2 = heap example_memory 2 \<and>
      heap m2 2 = Some (OClass (ClassBlockState_init (Some 0) ''D'' ''protected'' False no_mods))"
proof -
  have h: "heap example_memory 1 = Some (OClass (ClassBlockState_init (Some 0) ''C'' ''private'' False no_mods))"
    and h2: "heap example_memory 2 = Some (OClass (ClassBlockState_init (Some 0) ''D'' ''protected'' False no_mods))"
    by (simp_all add: example_memory_def)
  from set_access_replaces_access_only [OF h, of "''public''"]
  obtain m1 m2 s' where *: "set_access 1 ''private'' example_memory = Some m1"
    "set_access 1 ''public'' m1 = Some m2"
    "heap m2 1 = Some (OClass s')"
    "s' = (ClassBlockState_init (Some 0) ''C'' ''private'' False no_mods)\<lparr>access := ''public''\<rparr>"
    "\<forall>r. r \<noteq> 1 \<longrightarrow> heap m2 r = heap example_memory r"
    by blast
  from *(4) have "s' = ClassBlockState_init (Some 0) ''C'' ''public'' False no_mods"
    by (simp add: ClassBlockState_init_record)
  moreover from *(5) have "heap m2 0 = heap example_memory 0" "heap m2 2 = heap example_memory 2"
    by simp_all
  ultimately show ?thesis using *(1,2,3) h2
    by (intro exI [of _ m1] exI [of _ m2]) simp
qed

section \<open>The order of close notifications\<close>

lemma heap_notify [simp]: "heap (notify v c m) = heap m"
  by (simp add: notify_def)

lemma received_notify [simp]:
  "received (notify v c m) = (received m)(v := received m v @ [c])"
  by (simp add: notify_def)

lemma is_chain_update:
  "r \<notin> set stk \<Longrightarrow> is_chain (h(r \<mapsto> ob)) cur stk = is_chain h cur stk"
  by (induction stk arbitrary: cur) (auto split: option.splits)

lemma chain_parent_in_tail:
  "is_chain h cur stk \<Longrightarrow> b \<in> set stk \<Longrightarrow> h b = Some ob \<Longrightarrow> parent_of ob = Some a
     \<Longrightarrow> a \<in> set (tl stk)"
proof (induction stk arbitrary: cur)
  case Nil
  then show ?case by simp
next
  case (Cons r rs)
  from Cons.prems(1) obtain obr where obr: "h r = Some obr" "is_chain h (parent_of obr) rs"
    by (auto split: option.splits)
  show ?case
  proof (cases "b = r")
    case True
    with obr Cons.prems(3,4) have "is_chain h (Some a) rs" by simp
    then show ?thesis by (cases rs) simp_all
  next
    case False
    with Cons.prems(2) have "b \<in> set rs" by simp
    from Cons.IH [OF obr(2) this Cons.prems(3,4)] have "a \<in> set (tl rs)" .
    then have "a \<in> set rs" by (cases rs) simp_all
    then show ?thesis by simp
  qed
qed

lemma delivered_before_append:
  "delivered_before b a tr \<Longrightarrow> delivered_before b a (tr @ [c])"
proof -
  assume d: "delivered_before b a tr"
  then have a: "a \<in> set (map call_arg tr)"
    by (simp add: delivered_before_def)
  then have "takeWhile (\<lambda>r. r \<noteq> a) (map call_arg tr @ [call_arg c])
      = takeWhile (\<lambda>r. r \<noteq> a) (map call_arg tr)"
    by (rule takeWhile_append1) simp
  with d a show ?thesis
    by (simp add: delivered_before_def)
qed

lemma delivered_before_last:
  "a \<notin> call_arg ` set tr \<Longrightarrow> b \<in> call_arg ` set tr \<Longrightarrow> call_arg c = a
     \<Longrightarrow> delivered_before b a (tr @ [c])"
proof -
  assume a: "a \<notin> call_arg ` set tr" and b: "b \<in> call_arg ` set tr" and c: "call_arg c = a"
  from a have "takeWhile (\<lambda>r. r \<noteq> a) (map call_arg tr @ [a]) = map call_arg tr"
    by (subst takeWhile_append2) auto
  with b c show ?thesis
    by (simp add: delivered_before_def)
qed

lemma not_delivered_before_reverse:
  "delivered_before b a tr \<Longrightarrow> \<not> delivered_before a b tr"
proof -
  have "b \<in> set (takeWhile (\<lambda>r. r \<noteq> a) xs) \<Longrightarrow> a \<notin> set (takeWhile (\<lambda>r. r \<noteq> b) xs)" for xs
    by (induction xs) (auto split: if_splits)
  then show "delivered_before b a tr \<Longrightarrow> \<not> delivered_before a b tr"
    by (auto simp add: delivered_before_def)
qed

lemma stack_inv_init: "stack_inv (parser_init v) []"
  by (simp add: stack_inv_def parser_init_def closed_def)

lemma stack_inv_push:
  assumes inv: "stack_inv p stk" and fresh: "heap p r = None"
    and par: "parent_of ob = state p" and nb: "\<And>s. ob \<noteq> OState s"
  shows "stack_inv ((alloc r ob p)\<lparr>state := Some r\<rparr>) (r # stk)"
proof -
  let ?p = "(alloc r ob p)\<lparr>state := Some r\<rparr>"
  have h: "heap ?p = (heap p)(r \<mapsto> ob)" and rc: "received ?p = received p"
    and v: "visitor ?p = visitor p" and st: "state ?p = Some r"
    by (simp_all add: alloc_def)
  have cl: "closed ?p = closed p"
    by (simp add: closed_def rc v)
  from inv have chain: "is_chain (heap p) (state p) stk" and dist: "distinct stk"
    and disj: "set stk \<inter> closed p = {}" and dom: "dom (heap p) = set stk \<union> closed p"
    and dtr: "distinct (map call_arg (received p (visitor p)))"
    and nobase: "\<And>r s. heap p r \<noteq> Some (OState s)"
    and ord: "\<And>b ob a. heap p b = Some ob \<Longrightarrow> parent_of ob = Some a \<Longrightarrow> a \<in> closed p
        \<Longrightarrow> delivered_before b a (received p (visitor p))"
    by (auto simp add: stack_inv_def)
  from fresh dom have r_stk: "r \<notin> set stk" and r_cl: "r \<notin> closed p"
    by (auto simp add: domIff)
  have 1: "is_chain (heap ?p) (state ?p) (r # stk)"
    using chain r_stk by (simp add: h st par is_chain_update)
  have 2: "distinct (r # stk)"
    using dist r_stk by simp
  have 3: "set (r # stk) \<inter> closed ?p = {}"
    using disj r_cl by (simp add: cl)
  have 4: "dom (heap ?p) = set (r # stk) \<union> closed ?p"
    using dom by (simp add: h cl)
  have 5: "distinct (map call_arg (received ?p (visitor ?p)))"
    using dtr by (simp add: rc v)
  have 6: "heap ?p r' \<noteq> Some (OState s)" for r' s
    using nobase [of r' s] nb [of s] by (simp add: h)
  have 7: "delivered_before b a (received ?p (visitor ?p))"
    if hb: "heap ?p b = Some ob'" and pa: "parent_of ob' = Some a" and ac: "a \<in> closed ?p"
    for b ob' a
  proof (cases "b = r")
    case True
    with hb have "ob' = ob" by (simp add: h)
    with pa par have "state p = Some a" by simp
    with chain have "a \<in> set stk" by (cases stk) simp_all
    with disj ac show ?thesis by (auto simp add: cl)
  next
    case False
    with hb have "heap p b = Some ob'" by (simp add: h)
    from ord [OF this pa] ac show ?thesis by (simp add: cl rc v)
  qed
  from 1 2 3 4 5 6 7 show ?thesis
    unfolding stack_inv_def by blast
qed

lemma stack_inv_pop:
  assumes inv: "stack_inv p stk" and pop: "pop_state p = Some p'"
  shows "stack_inv p' (tl stk)"
proof -
  from inv have chain: "is_chain (heap p) (state p) stk" and dist: "distinct stk"
    and disj: "set stk \<inter> closed p = {}" and dom: "dom (heap p) = set stk \<union> closed p"
    and dtr: "distinct (map call_arg (received p (visitor p)))"
    and nobase: "\<And>r s. heap p r \<noteq> Some (OState s)"
    and ord: "\<And>b ob a. heap p b = Some ob \<Longrightarrow> parent_of ob = Some a \<Longrightarrow> a \<in> closed p
        \<Longrightarrow> delivered_before b a (received p (visitor p))"
    by (auto simp add: stack_inv_def)
  from pop obtain tp where tp: "state p = Some tp"
    by (auto simp add: pop_state_def split: option.splits)
  with chain obtain rs where stk: "stk = tp # rs"
    by (cases stk) simp_all
  with chain obtain ob where ob: "heap p tp = Some ob" and chain': "is_chain (heap p) (parent_of ob) rs"
    by (auto split: option.splits)
  have "\<exists>c. call_arg c = tp \<and> finish tp (visitor p) p = Some (notify (visitor p) c p)"
  proof (cases ob)
    case (OState s)
    with ob nobase [of tp s] show ?thesis by simp
  next
    case (OExtern s)
    with ob have "finish tp (visitor p) p = Some (notify (visitor p) (on_extern_block_end tp) p)"
      by (simp add: finish_def ExternBlockState_finish_def)
    then show ?thesis by (intro exI [of _ "on_extern_block_end tp"]) simp
  next
    case (ONamespace s)
    with ob have "finish tp (visitor p) p = Some (notify (visitor p) (on_namespace_end tp) p)"
      by (simp add: finish_def NamespaceBlockState_finish_def)
    then show ?thesis by (intro exI [of _ "on_namespace_end tp"]) simp
  next
    case (OClass s)
    with ob have "finish tp (visitor p) p = Some (notify (visitor p) (on_class_end tp) p)"
      by (simp add: finish_def ClassBlockState_finish_def)
    then show ?thesis by (intro exI [of _ "on_class_end tp"]) simp
  qed
  then obtain c where c: "call_arg c = tp"
    and fin: "finish tp (visitor p) p = Some (notify (visitor p) c p)"
    by blast
  let ?tr = "received p (visitor p)"
  from pop tp fin ob have p': "p' = (notify (visitor p) c p)\<lparr>state := parent_of ob\<rparr>"
    by (simp add: pop_state_def)
  have h: "heap p' = heap p" and rc: "received p' (visitor p') = ?tr @ [c]"
    and st: "state p' = parent_of ob"
    by (simp_all add: p' notify_def)
  have cl: "closed p' = insert tp (closed p)"
    by (simp add: closed_def rc c)
  from disj stk have tp_open: "tp \<notin> closed p"
    by auto
  have 1: "is_chain (heap p') (state p') (tl stk)"
    using chain' by (simp add: h st stk)
  have 2: "distinct (tl stk)"
    using dist by (simp add: stk)
  have 3: "set (tl stk) \<inter> closed p' = {}"
    using disj dist by (auto simp add: stk cl)
  have 4: "dom (heap p') = set (tl stk) \<union> closed p'"
    using dom by (auto simp add: h stk cl)
  have 5: "distinct (map call_arg (received p' (visitor p')))"
    using dtr tp_open by (simp add: rc c closed_def)
  have 6: "heap p' r' \<noteq> Some (OState s)" for r' s
    using nobase [of r' s] by (simp add: h)
  have 7: "delivered_before b a (received p' (visitor p'))"
    if hb: "heap p' b = Some ob'" and pa: "parent_of ob' = Some a" and ac: "a \<in> closed p'"
    for b ob' a
  proof (cases "a = tp")
    case True
    from hb have hb': "heap p b = Some ob'" by (simp add: h)
    then have "b \<in> set stk \<union> closed p" using dom by (auto simp add: domIff)
    moreover have "b \<notin> set stk"
    proof
      assume "b \<in> set stk"
      from chain_parent_in_tail [OF chain this hb' pa] have "a \<in> set rs"
        by (simp add: stk)
      with dist True show False by (simp add: stk)
    qed
    ultimately have "b \<in> call_arg ` set ?tr"
      by (simp add: closed_def)
    moreover from tp_open True have "a \<notin> call_arg ` set ?tr"
      by (simp add: closed_def)
    ultimately show ?thesis
      unfolding rc using c True by (intro delivered_before_last) simp_all
  next
    case False
    with ac have "a \<in> closed p" by (simp add: cl)
    moreover from hb have "heap p b = Some ob'" by (simp add: h)
    ultimately have "delivered_before b a ?tr" using pa by (intro ord)
    then show ?thesis
      unfolding rc by (rule delivered_before_append)
  qed
  from 1 2 3 4 5 6 7 show ?thesis
    unfolding stack_inv_def by blast
qed

lemma reachable_stack_inv: "reachable p \<Longrightarrow> \<exists>stk. stack_inv p stk"
proof (induction rule: reachable.induct)
  case (start v)
  show ?case using stack_inv_init by blast
next
  case (push_extern p r lk)
  then obtain stk where "stack_inv p stk" by blast
  from stack_inv_push [OF this push_extern.hyps(2), of "OExtern (ExternBlockState_init (state p) lk)"]
  show ?case
    by (auto simp add: push_state_def ExternBlockState_new_def)
next
  case (push_namespace p r ns)
  then obtain stk where "stack_inv p stk" by blast
  from stack_inv_push [OF this push_namespace.hyps(2), of "ONamespace (NamespaceBlockState_init (state p) ns)"]
  show ?case
    by (auto simp add: push_state_def NamespaceBlockState_new_def)
next
  case (push_class p r cd acc td ms)
  then obtain stk where "stack_inv p stk" by blast
  from stack_inv_push [OF this push_class.hyps(2), of "OClass (ClassBlockState_init (state p) cd acc td ms)"]
  show ?case
    by (auto simp add: push_state_def ClassBlockState_new_def)
next
  case (pop p p')
  then obtain stk where "stack_inv p stk" by blast
  from stack_inv_pop [OF this pop.hyps(2)] show ?case by blast
qed

text \<open>
  C3. Close notifications are delivered in LIFO order, matching the nesting: in every
  parser state that pushes and pops can build, for a state \<open>b\<close> whose parent is
  \<open>a\<close>, whenever the notification for \<open>a\<close> has been delivered, the one for \<open>b\<close> was
  delivered before it; the one for \<open>a\<close> is never delivered before the one for \<open>b\<close>;
  and no state is notified twice.
\<close>

theorem close_notifications_lifo:
  assumes "reachable p" and "heap p b = Some ob" and "parent_of ob = Some a"
  shows "(a \<in> call_arg ` set (received p (visitor p))
            \<longrightarrow> delivered_before b a (received p (visitor p)))
    \<and> \<not> delivered_before a b (received p (visitor p))
    \<and> distinct (map call_arg (received p (visitor p)))"
proof -
  from assms(1) obtain stk where inv: "stack_inv p stk"
    using reachable_stack_inv by blast
  then have ord: "a \<in> closed p \<Longrightarrow> delivered_before b a (received p (visitor p))"
    and dtr: "distinct (map call_arg (received p (visitor p)))"
    using assms(2,3) by (auto simp add: stack_inv_def)
  have "\<not> delivered_before a b (received p (visitor p))"
  proof (cases "a \<in> closed p")
    case True
    from not_delivered_before_reverse [OF ord [OF True]] show ?thesis .
  next
    case False
    then have "a \<notin> set (map call_arg (received p (visitor p)))"
      by (simp add: closed_def)
    then have "a \<notin> set (takeWhile (\<lambda>r. r \<noteq> b) (map call_arg (received p (visitor p))))"
      by (auto dest: set_takeWhileD)
    then show ?thesis by (simp add: delivered_before_def)
  qed
  with ord dtr show ?thesis
    by (simp add: closed_def)
qed

lemmas run_defs =
  push_state_def pop_state_def parser_init_def NamespaceBlockState_new_def
  ClassBlockState_new_def alloc_def finish_def NamespaceBlockState_finish_def
  ClassBlockState_finish_def notify_def parent_of_def
  NamespaceBlockState_init_record ClassBlockState_init_record

lemma example_run_record:
  "example_run =
     \<lparr>heap = [0 \<mapsto> ONamespace (NamespaceBlockState_init None [''n'']),
              1 \<mapsto> OClass (ClassBlockState_init (Some 0) ''C'' ''private'' False no_mods)],
      received = (\<lambda>_. [])(0 := [on_class_end 1, on_namespace_end 0]),
      state = None, visitor = 0\<rparr>"
  by (simp add: example_run_def run_defs)

text \<open>
  The run that opens namespace \<open>n\<close> (state 0), opens class \<open>C\<close> inside it (state 1),
  then closes both: the visitor receives \<open>on_class_end(1)\<close>, then
  \<open>on_namespace_end(0)\<close>.
\<close>

theorem close_notifications_lifo_witness:
  "reachable example_run
   \<and> heap example_run 1 = Some (OClass (ClassBlockState_init (Some 0) ''C'' ''private'' False no_mods))
   \<and> received example_run (visitor example_run) = [on_class_end 1, on_namespace_end 0]
   \<and> delivered_before 1 0 (received example_run (visitor example_run))
   \<and> \<not> delivered_before 0 1 (received example_run (visitor example_run))"
proof -
  let ?ns = "\<lambda>r par. NamespaceBlockState_new r par [''n'']"
  let ?cls = "\<lambda>r par. ClassBlockState_new r par ''C'' ''private'' False no_mods"
  let ?p0 = "parser_init 0 :: (unit, unit, string list, string) parser"
  let ?p1 = "push_state 0 ?ns ?p0"
  let ?p2 = "push_state 1 ?cls ?p1"
  let ?h = "[0 \<mapsto> ONamespace (NamespaceBlockState_init None [''n'']),
             1 \<mapsto> OClass (ClassBlockState_init (Some 0) ''C'' ''private'' False no_mods)]
            :: ref \<rightharpoonup> (unit, unit, string list, string) obj"
  let ?p3 = "\<lparr>heap = ?h, received = (\<lambda>_. [])(0 := [on_class_end 1]),
              state = Some 0, visitor = 0\<rparr>"
  have r1: "reachable ?p1"
    by (rule reachable.push_namespace [OF reachable.start]) (simp add: parser_init_def)
  have r2: "reachable ?p2"
    by (rule reachable.push_class [OF r1]) (simp add: run_defs)
  have e3: "pop_state ?p2 = Some ?p3"
    by (simp add: run_defs)
  have e4: "pop_state ?p3 = Some example_run"
    by (simp add: example_run_record run_defs)
  have r: "reachable example_run"
    by (rule reachable.pop [OF reachable.pop [OF r2 e3] e4])
  have h: "heap example_run 1 = Some (OClass (ClassBlockState_init (Some 0) ''C'' ''private'' False no_mods))"
    and tr: "received example_run (visitor example_run) = [on_class_end 1, on_namespace_end 0]"
    by (simp_all add: example_run_record)
  from close_notifications_lifo [OF r h] tr
  have "delivered_before 1 0 (received example_run (visitor example_run))"
    and "\<not> delivered_before 0 1 (received example_run (visitor example_run))"
    by simp_all
  with r h tr show ?thesis
    by (intro conjI)
qed

end
